theory Spec2Isabelle
  imports Main "HOL-Library.Sublist"
begin

section \<open>Go strings and the library functions the source calls\<close>

text \<open>
  A Go \<^verbatim>\<open>string\<close> is a sequence of bytes and \<^verbatim>\<open>len\<close> counts bytes, so a Go string is
  a \<^typ>\<open>string\<close> here (a list of 8-bit characters) and \<^verbatim>\<open>len(s)\<close> is \<^term>\<open>length s\<close>.
  \<^verbatim>\<open>==\<close> on strings is bytewise equality, which is \<open>=\<close>.

  The functions of package \<^verbatim>\<open>strings\<close> below are not part of the repository. They are
  written from the documentation of the Go standard library:
  \<^item> \<^verbatim>\<open>Contains(s, substr)\<close> reports whether \<^verbatim>\<open>substr\<close> is within \<^verbatim>\<open>s\<close>;
  \<^item> \<^verbatim>\<open>Index(s, substr)\<close> is the index of the first instance of \<^verbatim>\<open>substr\<close> in \<^verbatim>\<open>s\<close>,
    or -1 (here \<open>None\<close>) if there is none;
  \<^item> \<^verbatim>\<open>Split(s, sep)\<close> slices \<^verbatim>\<open>s\<close> into all substrings separated by \<^verbatim>\<open>sep\<close>; the
    library computes it by repeated \<^verbatim>\<open>Index\<close>, cutting after each separator found;
  \<^item> \<^verbatim>\<open>TrimPrefix(s, prefix)\<close> is \<^verbatim>\<open>s\<close> without the leading \<^verbatim>\<open>prefix\<close>, or \<^verbatim>\<open>s\<close> itself
    when it does not start with it.
\<close>

fun Contains :: "string \<Rightarrow> string \<Rightarrow> bool" where
  "Contains [] substr = (substr = [])"
| "Contains (c # cs) substr = (prefix substr (c # cs) \<or> Contains cs substr)"

fun Index :: "string \<Rightarrow> string \<Rightarrow> nat option" where
  "Index [] substr = (if substr = [] then Some 0 else None)"
| "Index (c # cs) substr =
     (if prefix substr (c # cs) then Some 0 else map_option Suc (Index cs substr))"

text \<open>
  The source passes only the non-empty literals \<^verbatim>\<open>"/playlist/"\<close> and \<^verbatim>\<open>"?"\<close> as separator.
  (For an empty separator Go cuts after each UTF-8 sequence; on one-byte characters that
  is the first branch below.)
\<close>

function Split :: "string \<Rightarrow> string \<Rightarrow> string list" where
  "Split s sep =
     (if sep = [] then map (\<lambda>c. [c]) s
      else case Index s sep of
             None \<Rightarrow> [s]
           | Some m \<Rightarrow> take m s # Split (drop (m + length sep) s) sep)"
  by pat_completeness auto
termination
proof (relation "measure (\<lambda>(s, sep). length s)")
  show "wf (measure (\<lambda>(s, sep). length s))" by simp
next
  fix s sep :: string and m :: nat
  assume sep: "sep \<noteq> []" and found: "Index s sep = Some m"
  have bound: "Index t sep = Some k \<Longrightarrow> k + length sep \<le> length t" for t k
  proof (induction t arbitrary: k)
    case Nil
    then show ?case by (simp split: if_splits)
  next
    case (Cons c cs)
    show ?case
    proof (cases "prefix sep (c # cs)")
      case True
      then have "length sep \<le> length (c # cs)" by (rule prefix_length_le)
      with True Cons.prems show ?thesis by simp
    next
      case False
      with Cons.prems obtain j where "Index cs sep = Some j" and "k = Suc j" by auto
      with Cons.IH show ?thesis by fastforce
    qed
  qed
  from sep found have "0 < m + length sep" and "m + length sep \<le> length s"
    using bound [of s m] by simp_all
  then have "length s - (m + length sep) < length s" by arith
  then show "((drop (m + length sep) s, sep), (s, sep)) \<in> measure (\<lambda>(s, sep). length s)"
    by simp
qed

declare Split.simps [simp del]

definition TrimPrefix :: "string \<Rightarrow> string \<Rightarrow> string" where
  "TrimPrefix s pre = (if prefix pre s then drop (length pre) s else s)"


section \<open>Data model\<close>

text \<open>
  The records of the client library that the source reads, with the fields it reads
  (\<^verbatim>\<open>spotify.SimplePlaylist\<close>, \<^verbatim>\<open>spotify.FullPlaylist\<close>, \<^verbatim>\<open>spotify.PlayerDevice\<close>,
  \<^verbatim>\<open>spotify.PlayOptions\<close>). Field names carry the record as a prefix, since a field
  name is a constant of the theory: \<^verbatim>\<open>playlist.ID\<close> is \<open>playlist_ID\<close>, \<^verbatim>\<open>device.Name\<close> is
  \<open>device_Name\<close>, \<^verbatim>\<open>playlist.Tracks.Total\<close> is \<open>Tracks_Total\<close>.
\<close>

record SimplePlaylist =
  playlist_ID :: string
  playlist_Name :: string

record FullPlaylist =
  full_Name :: string
  Tracks_Total :: int

record PlayerDevice =
  device_ID :: string
  device_Name :: string
  device_Type :: string
  Active :: bool

record PlayOptions =
  DeviceID :: string
  PlaybackContext :: string
  PlaybackOffset :: int

text \<open>
  A Go \<^verbatim>\<open>error\<close>: one returned by the remote client (opaque text), one made by
  \<^verbatim>\<open>fmt.Errorf(msg)\<close>, or one made by \<^verbatim>\<open>fmt.Errorf(msg + ": %w", err)\<close>, which wraps
  \<^verbatim>\<open>err\<close>. \<open>Error_text\<close> is the method \<^verbatim>\<open>Error()\<close>.
\<close>

datatype error =
    Remote string
  | Errorf string
  | Wrap string error

fun Error_text :: "error \<Rightarrow> string" where
  "Error_text (Remote msg) = msg"
| "Error_text (Errorf msg) = msg"
| "Error_text (Wrap msg err) = msg @ '': '' @ Error_text err"

text \<open>
  A call that can panic either returns a value or panics with a message. A function of
  the source whose loop may run forever returns an \<open>option\<close> around that: \<open>None\<close> is a
  run that never returns.
\<close>

datatype 'a exec = Return 'a | Panic string

text \<open>
  The interface \<^verbatim>\<open>SpotifyClient\<close> (\<^verbatim>\<open>Client\<close> in package \<^verbatim>\<open>spotify\<close>) with the methods
  the modelled functions call. A method is a function of its arguments; an error return
  is \<open>Inl\<close>. \<^verbatim>\<open>CurrentUsersPlaylists\<close> takes the limit and the offset of its two request
  options; it answers with a page (its \<^verbatim>\<open>Playlists\<close> field) or an error.
\<close>

record SpotifyClient =
  CurrentUsersPlaylists :: "int \<Rightarrow> int \<Rightarrow> error + SimplePlaylist list"
  PlayerDevices :: "error + PlayerDevice list"
  GetPlaylist :: "string \<Rightarrow> error + FullPlaylist"
  PlayOpt :: "PlayOptions \<Rightarrow> error option"
  Pause :: "error option"
  Shuffle :: "bool \<Rightarrow> error option"

text \<open>
  What a run does besides returning: the calls it makes on the client, the text it
  prints to standard output, the lines it logs, and the time it sleeps (milliseconds),
  in the order they happen.
\<close>

datatype event =
    CallCurrentUsersPlaylists int int
  | CallPlayerDevices
  | CallGetPlaylist string
  | CallPlayOpt PlayOptions
  | CallPause
  | CallShuffle bool
  | Stdout string
  | LogPrintf string
  | Sleep nat

fun is_Stdout :: "event \<Rightarrow> bool" where
  "is_Stdout (Stdout text) = True"
| "is_Stdout _ = False"

text \<open>
  The parts of the Go runtime that the source uses and that are not functions of the
  program's input alone:
  \<^item> \<^verbatim>\<open>strings.EqualFold\<close> (equality under Unicode simple case folding) and
    \<^verbatim>\<open>strings.ToLower\<close> are taken as they are, as parameters;
  \<^item> \<open>draw\<close> is the next raw value of the global source of \<^verbatim>\<open>math/rand\<close>.
\<close>

record runtime =
  EqualFold :: "string \<Rightarrow> string \<Rightarrow> bool"
  ToLower :: "string \<Rightarrow> string"
  draw :: nat

text \<open>
  \<^verbatim>\<open>rand.Intn(n)\<close>, from the documentation of \<^verbatim>\<open>math/rand\<close>: it returns a non-negative
  pseudo-random number in the half-open interval \<open>[0,n)\<close> and panics if \<open>n \<le> 0\<close>. Every
  number of the interval is \<open>draw mod n\<close> for some \<open>draw\<close>.
\<close>

definition Intn :: "runtime \<Rightarrow> int \<Rightarrow> int exec" where
  "Intn rt n =
     (if n \<le> 0 then Panic ''invalid argument to Intn''
      else Return (int (draw rt) mod n))"

section \<open>Playlist resolution\<close>

text \<open>\<^verbatim>\<open>extractPlaylistID\<close> (\<^verbatim>\<open>ExtractPlaylistID\<close> in package \<^verbatim>\<open>spotify\<close>).\<close>

definition extractPlaylistID :: "string \<Rightarrow> string" where
  "extractPlaylistID input =
     (if Contains input ''spotify.com/playlist/'' then
        (let parts = Split input ''/playlist/'' in
         if length parts > 1 then Split (parts ! 1) ''?'' ! 0
         else input)
      else input)"

text \<open>
  The inner loop of both resolvers, over the entries of one page: \<open>Some\<close> is the value
  the \<^verbatim>\<open>return\<close> inside the loop gives, \<open>None\<close> means the loop ran to its end.
\<close>

fun scan_page :: "runtime \<Rightarrow> string \<Rightarrow> SimplePlaylist list \<Rightarrow> string option" where
  "scan_page rt input [] = None"
| "scan_page rt input (playlist # rest) =
     (if EqualFold rt (playlist_Name playlist) input then Some (playlist_ID playlist)
      else if playlist_ID playlist = input then Some input
      else scan_page rt input rest)"

text \<open>The same loop in \<^verbatim>\<open>resolvePlaylistID\<close>, which prints when a name matches.\<close>

definition quote :: string where
  "quote = [CHR 0x22]"

definition newline :: string where
  "newline = [CHR 0x0A]"

fun scan_page_narrated ::
  "runtime \<Rightarrow> string \<Rightarrow> SimplePlaylist list \<Rightarrow> (event list \<times> string) option" where
  "scan_page_narrated rt input [] = None"
| "scan_page_narrated rt input (playlist # rest) =
     (if EqualFold rt (playlist_Name playlist) input then
        Some ([Stdout (''Found playlist: '' @ quote @ playlist_Name playlist @ quote
                        @ '' (ID: '' @ playlist_ID playlist @ '')'' @ newline)],
              playlist_ID playlist)
      else if playlist_ID playlist = input then Some ([], input)
      else scan_page_narrated rt input rest)"

text \<open>
  The \<^verbatim>\<open>for\<close> loop of \<^verbatim>\<open>resolvePlaylistIDQuiet\<close>. \<open>tr\<close> is what the run has done so
  far. The loop has no bound: a client that keeps answering with full pages without a
  match keeps it running, and the result is \<open>None\<close>. The offset is a Go \<^verbatim>\<open>int\<close> (64
  bits); it is an unbounded integer here, which is the same until 2^63 div 50 pages have
  been fetched.
\<close>

partial_function (option) quiet_loop ::
  "runtime \<Rightarrow> SpotifyClient \<Rightarrow> string \<Rightarrow> int \<Rightarrow> int \<Rightarrow> event list
     \<Rightarrow> (event list \<times> (error + string)) option" where
  "quiet_loop rt client input limit offset tr =
     (case CurrentUsersPlaylists client limit offset of
        Inl err \<Rightarrow>
          Some (tr @ [CallCurrentUsersPlaylists limit offset],
                Inl (Wrap ''failed to get playlists'' err))
      | Inr playlists \<Rightarrow>
          (case scan_page rt input playlists of
             Some found \<Rightarrow> Some (tr @ [CallCurrentUsersPlaylists limit offset], Inr found)
           | None \<Rightarrow>
               if int (length playlists) < limit
               then Some (tr @ [CallCurrentUsersPlaylists limit offset], Inr input)
               else quiet_loop rt client input limit (offset + limit)
                      (tr @ [CallCurrentUsersPlaylists limit offset])))"

declare quiet_loop.simps [code]

definition resolvePlaylistIDQuiet ::
  "runtime \<Rightarrow> SpotifyClient \<Rightarrow> string \<Rightarrow> (event list \<times> (error + string)) option" where
  "resolvePlaylistIDQuiet rt client input =
     (if Contains input ''spotify.com/playlist/'' then Some ([], Inr (extractPlaylistID input))
      else if length input = 22 \<and> \<not> Contains input '' '' then Some ([], Inr input)
      else quiet_loop rt client input 50 0 [])"

text \<open>
  \<^verbatim>\<open>resolvePlaylistID\<close>: the same steps with text printed before the search, when a name
  matches and after a search without a match.
\<close>

partial_function (option) narrated_loop ::
  "runtime \<Rightarrow> SpotifyClient \<Rightarrow> string \<Rightarrow> int \<Rightarrow> int \<Rightarrow> event list
     \<Rightarrow> (event list \<times> (error + string)) option" where
  "narrated_loop rt client input limit offset tr =
     (case CurrentUsersPlaylists client limit offset of
        Inl err \<Rightarrow>
          Some (tr @ [CallCurrentUsersPlaylists limit offset],
                Inl (Wrap ''failed to get playlists'' err))
      | Inr playlists \<Rightarrow>
          (case scan_page_narrated rt input playlists of
             Some (printed, found) \<Rightarrow>
               Some (tr @ [CallCurrentUsersPlaylists limit offset] @ printed, Inr found)
           | None \<Rightarrow>
               if int (length playlists) < limit
               then Some (tr @ [CallCurrentUsersPlaylists limit offset]
                             @ [Stdout (''No playlist found with name '' @ quote @ input @ quote
                                        @ '', trying as ID...'' @ newline)],
                          Inr input)
               else narrated_loop rt client input limit (offset + limit)
                      (tr @ [CallCurrentUsersPlaylists limit offset])))"

declare narrated_loop.simps [code]

definition resolvePlaylistID ::
  "runtime \<Rightarrow> SpotifyClient \<Rightarrow> string \<Rightarrow> (event list \<times> (error + string)) option" where
  "resolvePlaylistID rt client input =
     (if Contains input ''spotify.com/playlist/'' then Some ([], Inr (extractPlaylistID input))
      else if length input = 22 \<and> \<not> Contains input '' '' then Some ([], Inr input)
      else narrated_loop rt client input 50 0
             [Stdout (''Searching for playlist: '' @ quote @ input @ quote @ ''...'' @ newline)])"


section \<open>Formatting\<close>

text \<open>The verbs \<^verbatim>\<open>%d\<close> (decimal digits of an integer) and \<^verbatim>\<open>%v\<close> on a \<^verbatim>\<open>bool\<close>.\<close>

fun digits :: "nat \<Rightarrow> string" where
  "digits n = (if n < 10 then [char_of (48 + n)] else digits (n div 10) @ [char_of (48 + n mod 10)])"

declare digits.simps [simp del]

definition itoa :: "int \<Rightarrow> string" where
  "itoa i = (if i < 0 then ''-'' @ digits (nat (- i)) else digits (nat i))"

definition format_bool :: "bool \<Rightarrow> string" where
  "format_bool b = (if b then ''true'' else ''false'')"

section \<open>Device selection\<close>

text \<open>
  \<^verbatim>\<open>targetDevice\<close> is a pointer to an element of \<^verbatim>\<open>devices\<close>; it is the index of that
  element here, and \<^verbatim>\<open>nil\<close> is \<open>None\<close>. The first loop of \<^verbatim>\<open>PlayPlaylist\<close> stops at its
  \<^verbatim>\<open>break\<close>; \<open>i\<close> is the index of the head of the list in \<^verbatim>\<open>devices\<close>.
\<close>

fun find_named :: "string \<Rightarrow> PlayerDevice list \<Rightarrow> nat \<Rightarrow> nat option" where
  "find_named deviceName [] i = None"
| "find_named deviceName (device # rest) i =
     (if deviceName \<noteq> [] \<and> (device_Name device = deviceName \<or> device_ID device = deviceName)
      then Some i
      else find_named deviceName rest (Suc i))"

fun find_active :: "PlayerDevice list \<Rightarrow> nat \<Rightarrow> nat option" where
  "find_active [] i = None"
| "find_active (device # rest) i =
     (if Active device then Some i else find_active rest (Suc i))"

text \<open>
  Lines 40 to 60 of \<^verbatim>\<open>PlayPlaylist\<close>. \<^verbatim>\<open>&devices[0]\<close> on an empty slice is a run-time
  panic; \<^verbatim>\<open>PlayPlaylist\<close> returns before it when the list is empty.
\<close>

definition PlayPlaylist_targetDevice :: "PlayerDevice list \<Rightarrow> string \<Rightarrow> nat exec" where
  "PlayPlaylist_targetDevice devices deviceName =
     (case find_named deviceName devices 0 of
        Some i \<Rightarrow> Return i
      | None \<Rightarrow>
          (case find_active devices 0 of
             Some i \<Rightarrow> Return i
           | None \<Rightarrow>
               if devices = [] then Panic ''index out of range [0] with length 0''
               else Return 0))"

text \<open>
  The first loop of \<^verbatim>\<open>handlePlayPlaylist\<close> (the command-line path) prints every device
  and has no \<^verbatim>\<open>break\<close>: it assigns \<^verbatim>\<open>targetDevice\<close> at every device that matches and
  runs to the end of the list.
\<close>

fun list_devices ::
  "string \<Rightarrow> PlayerDevice list \<Rightarrow> nat \<Rightarrow> nat option \<Rightarrow> event list \<Rightarrow> event list \<times> nat option" where
  "list_devices deviceName [] i targetDevice tr = (tr, targetDevice)"
| "list_devices deviceName (device # rest) i targetDevice tr =
     list_devices deviceName rest (Suc i)
       (if deviceName \<noteq> [] \<and> (device_Name device = deviceName \<or> device_ID device = deviceName)
        then Some i else targetDevice)
       (tr @ [Stdout (''  '' @ itoa (int i + 1) @ ''. '' @ device_Name device @ '' (''
                      @ device_Type device @ '') - Active: '' @ format_bool (Active device)
                      @ newline)])"

text \<open>Lines 227 to 253 of \<^verbatim>\<open>handlePlayPlaylist\<close>.\<close>

definition handlePlayPlaylist_targetDevice ::
  "PlayerDevice list \<Rightarrow> string \<Rightarrow> event list \<times> nat exec" where
  "handlePlayPlaylist_targetDevice devices deviceName =
     (case list_devices deviceName devices 0 None [Stdout (newline @ ''Available devices:'' @ newline)] of
        (tr, Some i) \<Rightarrow>
          (tr @ [Stdout (newline @ ''Using specified device: '' @ device_Name (devices ! i) @ newline)],
           Return i)
      | (tr, None) \<Rightarrow>
          (let tr1 = (if deviceName \<noteq> []
                      then tr @ [Stdout (newline @ ''Device '' @ [CHR 0x27] @ deviceName @ [CHR 0x27]
                                         @ '' not found. '')]
                      else tr)
           in case find_active devices 0 of
                Some i \<Rightarrow>
                  (tr1 @ [Stdout (''Using device: '' @ device_Name (devices ! i) @ newline)], Return i)
              | None \<Rightarrow>
                  if devices = [] then (tr1, Panic ''index out of range [0] with length 0'')
                  else (tr1 @ [Stdout (''Using device: '' @ device_Name (devices ! 0) @ newline)],
                        Return 0)))"


section \<open>Playback\<close>

text \<open>
  Lines 68 to 115 of \<^verbatim>\<open>PlayPlaylist\<close>: what it does once the device and the playlist ID
  are known. \<open>tr\<close> is what the run has done so far.
\<close>

definition start_playback ::
  "runtime \<Rightarrow> SpotifyClient \<Rightarrow> PlayerDevice \<Rightarrow> string \<Rightarrow> bool \<Rightarrow> event list
     \<Rightarrow> event list \<times> (error + string) exec" where
  "start_playback rt client targetDevice playlistID shuffle tr =
     (case GetPlaylist client playlistID of
        Inl err \<Rightarrow>
          (tr @ [CallGetPlaylist playlistID], Return (Inl (Wrap ''failed to get playlist'' err)))
      | Inr playlist \<Rightarrow>
          (let trackCount = Tracks_Total playlist;
               playlistURI = ''spotify:playlist:'' @ playlistID;
               tr1 = tr @ [CallGetPlaylist playlistID]
           in if shuffle then
                (case Intn rt trackCount of
                   Panic msg \<Rightarrow> (tr1, Panic msg)
                 | Return randomOffset \<Rightarrow>
                     (let opts = \<lparr>DeviceID = device_ID targetDevice,
                                  PlaybackContext = playlistURI,
                                  PlaybackOffset = randomOffset\<rparr>
                      in case PlayOpt client opts of
                           Some err \<Rightarrow>
                             (tr1 @ [CallPlayOpt opts],
                              Return (Inl (Wrap ''failed to start playback'' err)))
                         | None \<Rightarrow>
                             (tr1 @ [CallPlayOpt opts, Sleep 500, CallShuffle True]
                                @ (case Shuffle client True of
                                     Some err \<Rightarrow>
                                       [LogPrintf (''Warning: Failed to enable shuffle: ''
                                                   @ Error_text err)]
                                   | None \<Rightarrow> []),
                              Return (Inr (''Now playing '' @ quote @ full_Name playlist @ quote
                                           @ '' on '' @ device_Name targetDevice
                                           @ '' (shuffle enabled, starting at track ''
                                           @ itoa (randomOffset + 1) @ '' of ''
                                           @ itoa trackCount @ '')'')))))
              else
                (let opts = \<lparr>DeviceID = device_ID targetDevice,
                             PlaybackContext = playlistURI,
                             PlaybackOffset = 0\<rparr>
                 in case PlayOpt client opts of
                      Some err \<Rightarrow>
                        (tr1 @ [CallPlayOpt opts],
                         Return (Inl (Wrap ''failed to start playback'' err)))
                    | None \<Rightarrow>
                        (tr1 @ [CallPlayOpt opts],
                         Return (Inr (''Now playing '' @ quote @ full_Name playlist @ quote
                                      @ '' on '' @ device_Name targetDevice
                                      @ '' (starting at track 1)''))))))"

text \<open>
  \<^verbatim>\<open>PlayPlaylist\<close> of package \<^verbatim>\<open>spotify\<close>; \<^verbatim>\<open>playPlaylist\<close> of package \<^verbatim>\<open>main\<close> has the same
  text. The global \<^verbatim>\<open>spotifyClient\<close> is a parameter, \<open>None\<close> when it is \<^verbatim>\<open>nil\<close>.
\<close>

definition PlayPlaylist ::
  "runtime \<Rightarrow> SpotifyClient option \<Rightarrow> string \<Rightarrow> string \<Rightarrow> bool
     \<Rightarrow> (event list \<times> (error + string) exec) option" where
  "PlayPlaylist rt spotifyClient deviceName playlistInput shuffle =
     (case spotifyClient of
        None \<Rightarrow>
          Some ([], Return (Inl (Errorf ''Spotify not authenticated. Visit /auth to authenticate'')))
      | Some client \<Rightarrow>
          (case PlayerDevices client of
             Inl err \<Rightarrow>
               Some ([CallPlayerDevices], Return (Inl (Wrap ''failed to get devices'' err)))
           | Inr devices \<Rightarrow>
               if length devices = 0 then
                 Some ([CallPlayerDevices], Return (Inl (Errorf ''no Spotify Connect devices found'')))
               else
                 (case PlayPlaylist_targetDevice devices deviceName of
                    Panic msg \<Rightarrow> Some ([CallPlayerDevices], Panic msg)
                  | Return i \<Rightarrow>
                      (case resolvePlaylistIDQuiet rt client playlistInput of
                         None \<Rightarrow> None
                       | Some (tr, Inl err) \<Rightarrow>
                           Some (CallPlayerDevices # tr,
                                 Return (Inl (Wrap ''failed to resolve playlist'' err)))
                       | Some (tr, Inr playlistID) \<Rightarrow>
                           Some (start_playback rt client (devices ! i) playlistID shuffle
                                   (CallPlayerDevices # tr))))))"

section \<open>The HTTP handler of \<^verbatim>\<open>/api/v1/play\<close>\<close>

text \<open>
  Of a request the handler reads the query parameters and the \<^verbatim>\<open>Authorization\<close> header.
  The query is the list of its key-value pairs in the order of the URL;
  \<^verbatim>\<open>r.URL.Query().Get(key)\<close> is the first value of the key, or the empty string. The header
  is the empty string when the request has none.
\<close>

record request =
  query :: "(string \<times> string) list"
  Authorization :: string

definition Query_Get :: "(string \<times> string) list \<Rightarrow> string \<Rightarrow> string" where
  "Query_Get q key = (case map_of q key of None \<Rightarrow> [] | Some v \<Rightarrow> v)"

record APIResponse =
  Success :: bool
  Message :: string
  Error :: string

text \<open>
  What the handler writes: the content type it sets, the status (the one passed to
  \<^verbatim>\<open>WriteHeader\<close>, 200 when the body is written without it) and the value it encodes.
\<close>

record response =
  content_type :: string
  status :: nat
  body :: APIResponse

definition handlePlayRequest ::
  "runtime \<Rightarrow> string \<Rightarrow> SpotifyClient option \<Rightarrow> request
     \<Rightarrow> (event list \<times> response exec) option" where
  "handlePlayRequest rt apiAccessToken spotifyClient r =
     (let token = (if Query_Get (query r) ''token'' = []
                   then TrimPrefix (Authorization r) ''Bearer ''
                   else Query_Get (query r) ''token'')
      in if token \<noteq> apiAccessToken then
           Some ([], Return \<lparr>content_type = ''application/json'', status = 401,
                             body = \<lparr>Success = False, Message = [],
                                      Error = ''Invalid or missing access token''\<rparr>\<rparr>)
         else
           (let deviceName = Query_Get (query r) ''device'';
                playlistInput = Query_Get (query r) ''playlist'';
                shuffleStr = Query_Get (query r) ''shuffle''
            in if playlistInput = [] then
                 Some ([], Return \<lparr>content_type = ''application/json'', status = 400,
                                   body = \<lparr>Success = False, Message = [],
                                            Error = ''playlist parameter is required''\<rparr>\<rparr>)
               else
                 (case PlayPlaylist rt spotifyClient deviceName playlistInput
                         (ToLower rt shuffleStr = ''true'') of
                    None \<Rightarrow> None
                  | Some (tr, Panic msg) \<Rightarrow> Some (tr, Panic msg)
                  | Some (tr, Return (Inl err)) \<Rightarrow>
                      Some (tr, Return \<lparr>content_type = ''application/json'', status = 500,
                                        body = \<lparr>Success = False, Message = [],
                                                 Error = Error_text err\<rparr>\<rparr>)
                  | Some (tr, Return (Inr result)) \<Rightarrow>
                      Some (tr, Return \<lparr>content_type = ''application/json'', status = 200,
                                        body = \<lparr>Success = True, Message = result,
                                                 Error = []\<rparr>\<rparr>))))"

section \<open>Values used to run the definitions\<close>

text \<open>
  A folding that agrees with \<^verbatim>\<open>strings.EqualFold\<close> and \<^verbatim>\<open>strings.ToLower\<close> on ASCII text:
  the letters \<open>A\<close> to \<open>Z\<close> are mapped to \<open>a\<close> to \<open>z\<close>.
\<close>

definition ascii_lower :: "char \<Rightarrow> char" where
  "ascii_lower c =
     (let n = (of_char c :: nat) in if 65 \<le> n \<and> n \<le> 90 then char_of (n + 32) else c)"

definition ascii_runtime :: "nat \<Rightarrow> runtime" where
  "ascii_runtime d =
     \<lparr>EqualFold = (\<lambda>s t. map ascii_lower s = map ascii_lower t),
      ToLower = map ascii_lower,
      draw = d\<rparr>"


text \<open>A client whose answers do not depend on the request, and the entries to build them.\<close>

definition entry :: "string \<Rightarrow> string \<Rightarrow> SimplePlaylist" where
  "entry i n = \<lparr>playlist_ID = i, playlist_Name = n\<rparr>"

definition speaker :: "string \<Rightarrow> string \<Rightarrow> bool \<Rightarrow> PlayerDevice" where
  "speaker i n a = \<lparr>device_ID = i, device_Name = n, device_Type = ''Speaker'', Active = a\<rparr>"

definition demo_client ::
  "(int \<Rightarrow> error + SimplePlaylist list) \<Rightarrow> PlayerDevice list \<Rightarrow> int \<Rightarrow> SpotifyClient" where
  "demo_client pages devices n =
     \<lparr>CurrentUsersPlaylists = (\<lambda>limit offset. pages offset),
      PlayerDevices = Inr devices,
      GetPlaylist = (\<lambda>playlistID. Inr \<lparr>full_Name = ''Road Trip'', Tracks_Total = n\<rparr>),
      PlayOpt = (\<lambda>opts. None),
      Pause = None,
      Shuffle = (\<lambda>b. None)\<rparr>"

text \<open>
  Two listers of more than one page: the first page is full (50 entries) and has no
  match for the inputs used below; the second is short, or fails.
\<close>

definition demo_pages :: "int \<Rightarrow> error + SimplePlaylist list" where
  "demo_pages offset =
     (if offset = 0 then Inr (replicate 50 (entry ''other456playlistid00'' ''Other Playlist''))
      else if offset = 50 then
        Inr [entry ''jazz0000playlistid00'' ''Jazz'',
             entry ''found123playlistid00'' ''My Awesome Playlist'',
             entry ''later789playlistid00'' ''MY AWESOME PLAYLIST'']
      else Inr [])"

definition failing_pages :: "int \<Rightarrow> error + SimplePlaylist list" where
  "failing_pages offset =
     (if offset = 0 then Inr (replicate 50 (entry ''other456playlistid00'' ''Other Playlist''))
      else Inl (Remote ''API error''))"

text \<open>
  The number of characters of a text in UTF-8: a character is one byte that is not of
  the form \<^verbatim>\<open>10xxxxxx\<close>, followed by bytes of that form. On ASCII text it is the number
  of bytes.
\<close>

definition characters :: "string \<Rightarrow> nat" where
  "characters s =
     length (filter (\<lambda>c. \<not> (128 \<le> (of_char c :: nat) \<and> (of_char c :: nat) < 192)) s)"

text \<open>
  A playlist name of 22 characters that are not ASCII: 22 times the Cyrillic letter
  U+0416, which is the two bytes \<^verbatim>\<open>D0 96\<close> in UTF-8. The lister below has one page, with
  a playlist of that name.
\<close>

definition zhe_name :: string where
  "zhe_name = concat (replicate 22 [CHR 0xD0, CHR 0x96])"

definition zhe_pages :: "int \<Rightarrow> error + SimplePlaylist list" where
  "zhe_pages offset = Inr [entry ''4uLU6hMCjMI75M1A2tKUQC'' zhe_name]"

text \<open>What is left of a run when the text printed to standard output is dropped.\<close>

definition silent :: "event list \<Rightarrow> event list" where
  "silent tr = filter (\<lambda>e. \<not> is_Stdout e) tr"

section \<open>The two resolvers agree\<close>

lemma silent_append: "silent (xs @ ys) = silent xs @ silent ys"
  by (simp add: silent_def)

lemma scan_page_narrated_None:
  "scan_page_narrated rt input ps = None \<longleftrightarrow> scan_page rt input ps = None"
  by (induction ps) auto

lemma scan_page_narrated_Some:
  "scan_page_narrated rt input ps = Some (printed, found) \<Longrightarrow>
     scan_page rt input ps = Some found \<and> silent printed = []"
  by (induction ps) (auto simp: silent_def split: if_splits)

lemma scan_page_Some_narrated:
  "scan_page rt input ps = Some found \<Longrightarrow>
     \<exists>printed. scan_page_narrated rt input ps = Some (printed, found) \<and> silent printed = []"
  by (induction ps) (auto simp: silent_def split: if_splits)

text \<open>
  Both loops are least fixed points, so each direction is an induction over the
  unfoldings of one loop: a run of the narrated loop that returns is matched by the
  silent loop, and the other way round.
\<close>

lemma narrated_to_quiet:
  assumes "narrated_loop rt client input limit offset trN = Some y"
  shows "quiet_loop rt client input limit offset (silent trN) = Some (silent (fst y), snd y)"
  using assms
proof (induction rule: narrated_loop.raw_induct [rotated 1, consumes 1])
  case (1 loop rt client input limit offset tr y)
  show ?case
  proof (cases "CurrentUsersPlaylists client limit offset")
    case (Inl err)
    with 1(2) show ?thesis
      by (subst quiet_loop.simps) (auto simp: silent_def)
  next
    case (Inr playlists)
    show ?thesis
    proof (cases "scan_page_narrated rt input playlists")
      case None
      then have q: "scan_page rt input playlists = None"
        by (simp add: scan_page_narrated_None)
      show ?thesis
      proof (cases "int (length playlists) < limit")
        case True
        with 1(2) Inr None q show ?thesis
          by (subst quiet_loop.simps) (auto simp: silent_def)
      next
        case False
        with 1(2) Inr None
        have "loop rt client input limit (offset + limit)
                (tr @ [CallCurrentUsersPlaylists limit offset]) = Some y"
          by simp
        then have "quiet_loop rt client input limit (offset + limit)
                     (silent (tr @ [CallCurrentUsersPlaylists limit offset]))
                   = Some (silent (fst y), snd y)"
          by (rule 1(1))
        with Inr q False show ?thesis
          by (subst quiet_loop.simps) (simp add: silent_def)
      qed
    next
      case (Some pf)
      obtain printed found where pf: "pf = (printed, found)" by (cases pf)
      with Some have "scan_page rt input playlists = Some found" and "silent printed = []"
        using scan_page_narrated_Some by blast+
      with 1(2) Inr Some pf show ?thesis
        by (subst quiet_loop.simps) (auto simp: silent_append, simp add: silent_def)
    qed
  qed
qed

lemma quiet_to_narrated:
  assumes "quiet_loop rt client input limit offset trQ = Some y"
  shows "\<forall>trN. silent trN = trQ \<longrightarrow>
           (\<exists>t. narrated_loop rt client input limit offset trN = Some (t, snd y)
                \<and> silent t = fst y)"
  using assms
proof (induction rule: quiet_loop.raw_induct [rotated 1, consumes 1])
  case (1 loop rt client input limit offset tr y)
  show ?case
  proof (intro allI impI)
    fix trN
    assume trN: "silent trN = tr"
    show "\<exists>t. narrated_loop rt client input limit offset trN = Some (t, snd y)
              \<and> silent t = fst y"
    proof (cases "CurrentUsersPlaylists client limit offset")
      case (Inl err)
      with 1(2) trN show ?thesis
        by (subst narrated_loop.simps) (auto simp: silent_def)
    next
      case (Inr playlists)
      show ?thesis
      proof (cases "scan_page rt input playlists")
        case None
        then have n: "scan_page_narrated rt input playlists = None"
          by (simp add: scan_page_narrated_None)
        show ?thesis
        proof (cases "int (length playlists) < limit")
          case True
          with 1(2) Inr None n trN show ?thesis
            by (subst narrated_loop.simps) (auto simp: silent_def)
        next
          case False
          with 1(2) Inr None
          have "loop rt client input limit (offset + limit)
                  (tr @ [CallCurrentUsersPlaylists limit offset]) = Some y"
            by simp
          from 1(1) [OF this]
          have "silent (trN @ [CallCurrentUsersPlaylists limit offset])
                  = tr @ [CallCurrentUsersPlaylists limit offset] \<longrightarrow>
                (\<exists>t. narrated_loop rt client input limit (offset + limit)
                       (trN @ [CallCurrentUsersPlaylists limit offset]) = Some (t, snd y)
                     \<and> silent t = fst y)"
            by (rule spec)
          moreover have "silent (trN @ [CallCurrentUsersPlaylists limit offset])
                  = tr @ [CallCurrentUsersPlaylists limit offset]"
            using trN by (simp add: silent_def)
          ultimately obtain t where
            "narrated_loop rt client input limit (offset + limit)
               (trN @ [CallCurrentUsersPlaylists limit offset]) = Some (t, snd y)"
            and "silent t = fst y"
            by blast
          with Inr n False show ?thesis
            by (subst narrated_loop.simps) simp
        qed
      next
        case (Some found)
        then obtain printed where
          "scan_page_narrated rt input playlists = Some (printed, found)"
          and "silent printed = []"
          using scan_page_Some_narrated by blast
        with 1(2) Inr Some trN show ?thesis
          by (subst narrated_loop.simps) (auto simp: silent_append, simp add: silent_def)
      qed
    qed
  qed
qed

lemma loops_agree:
  "map_option (\<lambda>(tr, r). (silent tr, r)) (narrated_loop rt client input limit offset trN)
     = quiet_loop rt client input limit offset (silent trN)"
proof (cases "narrated_loop rt client input limit offset trN")
  case None
  show ?thesis
  proof (cases "quiet_loop rt client input limit offset (silent trN)")
    case qNone: None
    with None show ?thesis by simp
  next
    case (Some y)
    from quiet_to_narrated [OF this] None show ?thesis by auto
  qed
next
  case (Some y)
  from narrated_to_quiet [OF this] Some show ?thesis
    by (simp add: case_prod_beta)
qed

text \<open>
  Claim C3. \<^verbatim>\<open>resolvePlaylistID\<close> (narrated) and \<^verbatim>\<open>resolvePlaylistIDQuiet\<close> (silent) are the
  same function of the input and the client: for every input and every client, either
  both never return, or both return the same ID or the same error after the same calls
  on the client. They differ only in the text the narrated one prints.
\<close>

theorem narrated_and_silent_resolver_agree:
  "map_option (\<lambda>(tr, r). (filter (\<lambda>e. \<not> is_Stdout e) tr, r))
       (resolvePlaylistID rt client input)
     = resolvePlaylistIDQuiet rt client input"
  using loops_agree [of rt client input 50 0
      "[Stdout (''Searching for playlist: '' @ quote @ input @ quote @ ''...'' @ newline)]"]
  by (simp add: resolvePlaylistID_def resolvePlaylistIDQuiet_def silent_def)


section \<open>The bare-ID heuristic\<close>

text \<open>
  Claim C4, as the source has it. An input that does not contain the playlist-link
  marker, is exactly 22 bytes long (\<^verbatim>\<open>len(input) == 22\<close>; that is 22 characters when
  the input is ASCII) and contains no space is returned unchanged by
  \<^verbatim>\<open>resolvePlaylistIDQuiet\<close>, and the run makes no call on the client, whatever the
  client would have answered.
\<close>

theorem bare_id_returned_without_lookup:
  assumes "\<not> Contains input ''spotify.com/playlist/''"
    and "length input = 22"
    and "\<not> Contains input '' ''"
  shows "resolvePlaylistIDQuiet rt client input = Some ([], Inr input)"
  using assms by (simp add: resolvePlaylistIDQuiet_def)

text \<open>
  The input of the witness is the name of a playlist that the client lists: the search
  loop would have found its ID, and the resolver returns the name instead.
\<close>

theorem bare_id_returned_without_lookup_witness:
  "\<not> Contains ''TwentyTwoCharacterName'' ''spotify.com/playlist/''
   \<and> length ''TwentyTwoCharacterName'' = 22
   \<and> \<not> Contains ''TwentyTwoCharacterName'' '' ''
   \<and> scan_page (ascii_runtime 0) ''TwentyTwoCharacterName''
         [entry ''4uLU6hMCjMI75M1A2tKUQC'' ''TwentyTwoCharacterName'']
       = Some ''4uLU6hMCjMI75M1A2tKUQC''
   \<and> resolvePlaylistIDQuiet (ascii_runtime 0)
         (demo_client
            (\<lambda>offset. Inr [entry ''4uLU6hMCjMI75M1A2tKUQC'' ''TwentyTwoCharacterName'']) [] 0)
         ''TwentyTwoCharacterName''
       = Some ([], Inr ''TwentyTwoCharacterName'')"
proof -
  have 1: "\<not> Contains ''TwentyTwoCharacterName'' ''spotify.com/playlist/''" by code_simp
  have 2: "length ''TwentyTwoCharacterName'' = 22" by simp
  have 3: "\<not> Contains ''TwentyTwoCharacterName'' '' ''" by code_simp
  have 4: "scan_page (ascii_runtime 0) ''TwentyTwoCharacterName''
             [entry ''4uLU6hMCjMI75M1A2tKUQC'' ''TwentyTwoCharacterName'']
           = Some ''4uLU6hMCjMI75M1A2tKUQC''"
    by (simp add: entry_def ascii_runtime_def)
  from 1 2 3 4 bare_id_returned_without_lookup [OF 1 2 3] show ?thesis by blast
qed

text \<open>
  Claim C4 as stated: an input of exactly 22 characters without the marker and without a
  space is returned unchanged and the lister is never called, also when the input is a
  playlist name. The name below has 22 characters and 44 bytes, so the length test of
  the source fails: the lister is called and the ID of the playlist of that name is
  returned.
\<close>

theorem non_ascii_name_of_22_characters_counterexample:
  "\<not> Contains zhe_name ''spotify.com/playlist/''
   \<and> characters zhe_name = 22
   \<and> \<not> Contains zhe_name '' ''
   \<and> length zhe_name = 44
   \<and> resolvePlaylistIDQuiet (ascii_runtime 0) (demo_client zhe_pages [] 0) zhe_name
       = Some ([CallCurrentUsersPlaylists 50 0], Inr ''4uLU6hMCjMI75M1A2tKUQC'')
   \<and> resolvePlaylistIDQuiet (ascii_runtime 0) (demo_client zhe_pages [] 0) zhe_name
       \<noteq> Some ([], Inr zhe_name)"
proof -
  have 1: "\<not> Contains zhe_name ''spotify.com/playlist/''" by code_simp
  have 2: "characters zhe_name = 22" by code_simp
  have 3: "\<not> Contains zhe_name '' ''" by code_simp
  have 4: "length zhe_name = 44" by code_simp
  have 5: "resolvePlaylistIDQuiet (ascii_runtime 0) (demo_client zhe_pages [] 0) zhe_name
       = Some ([CallCurrentUsersPlaylists 50 0], Inr ''4uLU6hMCjMI75M1A2tKUQC'')"
    by code_simp
  from 1 2 3 4 5 show ?thesis by simp
qed

section \<open>Play without devices\<close>

text \<open>
  Claim C8. With a client present (an authenticated session) whose device list is
  empty, \<^verbatim>\<open>PlayPlaylist\<close> returns the error "no Spotify Connect devices found", and the
  only call of the run is the one that fetched the devices: no playlist page is
  requested, no playlist is fetched and no playback command is sent.
\<close>

theorem no_devices_stops_play:
  assumes "PlayerDevices client = Inr []"
  shows "PlayPlaylist rt (Some client) deviceName playlistInput shuffle
         = Some ([CallPlayerDevices], Return (Inl (Errorf ''no Spotify Connect devices found'')))"
  using assms by (simp add: PlayPlaylist_def)

theorem no_devices_stops_play_witness:
  "PlayerDevices (demo_client (\<lambda>offset. Inr []) [] 10) = Inr []
   \<and> PlayPlaylist (ascii_runtime 0) (Some (demo_client (\<lambda>offset. Inr []) [] 10))
        ''Kitchen'' ''Road Trip'' True
      = Some ([CallPlayerDevices], Return (Inl (Errorf ''no Spotify Connect devices found'')))"
proof -
  have h: "PlayerDevices (demo_client (\<lambda>offset. Inr []) [] 10) = Inr []"
    by (simp add: demo_client_def)
  from h no_devices_stops_play [OF h] show ?thesis by blast
qed

section \<open>The play handler checks the token first\<close>

text \<open>
  Claim C10. \<^verbatim>\<open>handlePlayRequest\<close> compares the supplied token (the query parameter
  \<^verbatim>\<open>token\<close>, or the \<^verbatim>\<open>Authorization\<close> header without its \<^verbatim>\<open>Bearer\<close> prefix when the
  parameter is empty) with the configured access token before it looks at the playlist
  parameter: when they differ the response is 401 with the invalid-token envelope and
  nothing else happens, whatever the other parameters are; and a response with status
  400 is "playlist parameter is required" for a request whose token matches.
\<close>

theorem token_checked_before_playlist:
  assumes "token = (if Query_Get (query r) ''token'' = []
                    then TrimPrefix (Authorization r) ''Bearer ''
                    else Query_Get (query r) ''token'')"
  shows "(token \<noteq> apiAccessToken \<longrightarrow>
            handlePlayRequest rt apiAccessToken spotifyClient r
              = Some ([], Return \<lparr>content_type = ''application/json'', status = 401,
                                  body = \<lparr>Success = False, Message = [],
                                           Error = ''Invalid or missing access token''\<rparr>\<rparr>))
       \<and> (\<forall>tr resp. handlePlayRequest rt apiAccessToken spotifyClient r = Some (tr, Return resp)
              \<and> status resp = 400 \<longrightarrow>
              token = apiAccessToken \<and> Query_Get (query r) ''playlist'' = []
              \<and> Error (body resp) = ''playlist parameter is required'')"
  using assms
  by (auto simp: handlePlayRequest_def Let_def
           split: option.splits prod.splits exec.splits sum.splits if_splits)

theorem token_checked_before_playlist_witness:
  "handlePlayRequest (ascii_runtime 0) ''test-token'' None
      \<lparr>query = [(''device'', ''Kitchen'')], Authorization = ''Bearer wrong''\<rparr>
     = Some ([], Return \<lparr>content_type = ''application/json'', status = 401,
                         body = \<lparr>Success = False, Message = [],
                                  Error = ''Invalid or missing access token''\<rparr>\<rparr>)
   \<and> handlePlayRequest (ascii_runtime 0) ''test-token'' None
      \<lparr>query = [(''token'', ''test-token'')], Authorization = []\<rparr>
     = Some ([], Return \<lparr>content_type = ''application/json'', status = 400,
                         body = \<lparr>Success = False, Message = [],
                                  Error = ''playlist parameter is required''\<rparr>\<rparr>)"
proof -
  have t: "''wrong'' = (if Query_Get (query \<lparr>query = [(''device'', ''Kitchen'')],
                                             Authorization = ''Bearer wrong''\<rparr>) ''token'' = []
             then TrimPrefix (Authorization \<lparr>query = [(''device'', ''Kitchen'')],
                                              Authorization = ''Bearer wrong''\<rparr>) ''Bearer ''
             else Query_Get (query \<lparr>query = [(''device'', ''Kitchen'')],
                                     Authorization = ''Bearer wrong''\<rparr>) ''token'')"
    by (simp add: Query_Get_def TrimPrefix_def)
  have a: "handlePlayRequest (ascii_runtime 0) ''test-token'' None
      \<lparr>query = [(''device'', ''Kitchen'')], Authorization = ''Bearer wrong''\<rparr>
     = Some ([], Return \<lparr>content_type = ''application/json'', status = 401,
                         body = \<lparr>Success = False, Message = [],
                                  Error = ''Invalid or missing access token''\<rparr>\<rparr>)"
    using token_checked_before_playlist [OF t, of "''test-token''" "ascii_runtime 0" None]
    by simp
  have b: "handlePlayRequest (ascii_runtime 0) ''test-token'' None
      \<lparr>query = [(''token'', ''test-token'')], Authorization = []\<rparr>
     = Some ([], Return \<lparr>content_type = ''application/json'', status = 400,
                         body = \<lparr>Success = False, Message = [],
                                  Error = ''playlist parameter is required''\<rparr>\<rparr>)"
    by (simp add: handlePlayRequest_def Query_Get_def)
  from a b show ?thesis by blast
qed


section \<open>What the two device selections select\<close>

text \<open>
  The selection of \<^verbatim>\<open>PlayPlaylist\<close> (the path of the service) does what the device
  selector is specified to do: on a non-empty list it takes the first device whose name
  or ID is the hint when the hint is non-empty and some device matches, else the first
  active device, else the first device.
\<close>

lemma find_named_Some:
  "find_named hint ds i = Some j \<Longrightarrow>
     hint \<noteq> [] \<and> i \<le> j \<and> j - i < length ds
     \<and> (device_Name (ds ! (j - i)) = hint \<or> device_ID (ds ! (j - i)) = hint)
     \<and> (\<forall>k<j - i. device_Name (ds ! k) \<noteq> hint \<and> device_ID (ds ! k) \<noteq> hint)"
proof (induction ds arbitrary: i)
  case Nil
  then show ?case by simp
next
  case (Cons d ds)
  show ?case
  proof (cases "hint \<noteq> [] \<and> (device_Name d = hint \<or> device_ID d = hint)")
    case True
    with Cons.prems show ?thesis by auto
  next
    case False
    with Cons.prems have "find_named hint ds (Suc i) = Some j" by auto
    from Cons.IH [OF this] have h: "hint \<noteq> []" "Suc i \<le> j" "j - Suc i < length ds"
      "device_Name (ds ! (j - Suc i)) = hint \<or> device_ID (ds ! (j - Suc i)) = hint"
      "\<forall>k<j - Suc i. device_Name (ds ! k) \<noteq> hint \<and> device_ID (ds ! k) \<noteq> hint"
      by blast+
    from h(2) have ji: "j - i = Suc (j - Suc i)" by arith
    have "\<forall>k<j - i. device_Name ((d # ds) ! k) \<noteq> hint \<and> device_ID ((d # ds) ! k) \<noteq> hint"
    proof (intro allI impI)
      fix k assume "k < j - i"
      show "device_Name ((d # ds) ! k) \<noteq> hint \<and> device_ID ((d # ds) ! k) \<noteq> hint"
      proof (cases k)
        case 0
        with False h(1) show ?thesis by simp
      next
        case (Suc k')
        with \<open>k < j - i\<close> ji have "k' < j - Suc i" by arith
        with h(5) Suc show ?thesis by simp
      qed
    qed
    with h ji show ?thesis by simp
  qed
qed

lemma find_named_None:
  "find_named hint ds i = None \<longleftrightarrow>
     hint = [] \<or> (\<forall>d\<in>set ds. device_Name d \<noteq> hint \<and> device_ID d \<noteq> hint)"
  by (induction ds arbitrary: i) auto

lemma find_active_Some:
  "find_active ds i = Some j \<Longrightarrow>
     i \<le> j \<and> j - i < length ds \<and> Active (ds ! (j - i)) \<and> (\<forall>k<j - i. \<not> Active (ds ! k))"
proof (induction ds arbitrary: i)
  case Nil
  then show ?case by simp
next
  case (Cons d ds)
  show ?case
  proof (cases "Active d")
    case True
    with Cons.prems show ?thesis by auto
  next
    case False
    with Cons.prems have "find_active ds (Suc i) = Some j" by auto
    from Cons.IH [OF this] have h: "Suc i \<le> j" "j - Suc i < length ds"
      "Active (ds ! (j - Suc i))" "\<forall>k<j - Suc i. \<not> Active (ds ! k)"
      by blast+
    from h(1) have ji: "j - i = Suc (j - Suc i)" by arith
    have "\<forall>k<j - i. \<not> Active ((d # ds) ! k)"
    proof (intro allI impI)
      fix k assume "k < j - i"
      show "\<not> Active ((d # ds) ! k)"
      proof (cases k)
        case 0
        with False show ?thesis by simp
      next
        case (Suc k')
        with \<open>k < j - i\<close> ji have "k' < j - Suc i" by arith
        with h(4) Suc show ?thesis by simp
      qed
    qed
    with h ji show ?thesis by simp
  qed
qed

lemma find_active_None: "find_active ds i = None \<longleftrightarrow> (\<forall>d\<in>set ds. \<not> Active d)"
  by (induction ds arbitrary: i) auto

lemma PlayPlaylist_targetDevice_first_match:
  assumes "devices \<noteq> []"
  shows "\<exists>i<length devices. PlayPlaylist_targetDevice devices hint = Return i \<and>
     (if hint \<noteq> [] \<and> (\<exists>d\<in>set devices. device_Name d = hint \<or> device_ID d = hint)
      then (device_Name (devices ! i) = hint \<or> device_ID (devices ! i) = hint)
           \<and> (\<forall>j<i. device_Name (devices ! j) \<noteq> hint \<and> device_ID (devices ! j) \<noteq> hint)
      else if \<exists>d\<in>set devices. Active d
      then Active (devices ! i) \<and> (\<forall>j<i. \<not> Active (devices ! j))
      else i = 0)"
proof (cases "find_named hint devices 0")
  case (Some i)
  from find_named_Some [OF Some] find_named_None [of hint devices 0] Some
  show ?thesis
    by (auto simp: PlayPlaylist_targetDevice_def)
next
  case None
  then have nomatch: "\<not> (hint \<noteq> [] \<and> (\<exists>d\<in>set devices. device_Name d = hint \<or> device_ID d = hint))"
    using find_named_None [of hint devices 0] by auto
  show ?thesis
  proof (cases "find_active devices 0")
    case (Some i)
    from find_active_Some [OF Some] find_active_None [of devices 0] Some None nomatch
    show ?thesis
      by (auto simp: PlayPlaylist_targetDevice_def)
  next
    case noactive: None
    with None nomatch assms find_active_None [of devices 0] show ?thesis
      by (auto simp: PlayPlaylist_targetDevice_def)
  qed
qed

text \<open>
  Claim C1. The selector returns the first device, in listed order, whose name or ID
  equals the hint. The selection of \<^verbatim>\<open>handlePlayPlaylist\<close> (the command-line path) does
  not: its loop has no \<^verbatim>\<open>break\<close>, so with two devices of the same name it ends on the
  second one (index 1), where the selection of \<^verbatim>\<open>PlayPlaylist\<close> takes the first (index 0).
\<close>

theorem cli_takes_last_matching_device:
  "snd (handlePlayPlaylist_targetDevice
          [speaker ''d1'' ''Kitchen'' False, speaker ''d2'' ''Kitchen'' False] ''Kitchen'')
     = Return 1
   \<and> PlayPlaylist_targetDevice
          [speaker ''d1'' ''Kitchen'' False, speaker ''d2'' ''Kitchen'' False] ''Kitchen''
     = Return 0"
  by (simp add: handlePlayPlaylist_targetDevice_def PlayPlaylist_targetDevice_def speaker_def)

section \<open>Play with shuffle\<close>

lemma find_named_bound: "find_named hint ds i = Some j \<Longrightarrow> i \<le> j \<and> j < i + length ds"
  by (induction ds arbitrary: i) (fastforce split: if_splits)+

lemma find_active_bound: "find_active ds i = Some j \<Longrightarrow> i \<le> j \<and> j < i + length ds"
  by (induction ds arbitrary: i) (fastforce split: if_splits)+

lemma targetDevice_in_range:
  "PlayPlaylist_targetDevice devices hint = Return i \<Longrightarrow> devices \<noteq> [] \<Longrightarrow> i < length devices"
  using find_named_bound [of hint devices 0 i] find_active_bound [of devices 0 i]
  by (auto simp: PlayPlaylist_targetDevice_def split: option.splits)

lemma Intn_range: "Intn rt n = Return off \<Longrightarrow> 0 < n \<and> 0 \<le> off \<and> off < n"
  by (auto simp: Intn_def split: if_splits)

lemma start_playback_shuffle_success:
  assumes "start_playback rt client targetDevice playlistID True tr0 = (tr, Return (Inr msg))"
  shows "\<exists>playlist off.
           GetPlaylist client playlistID = Inr playlist
         \<and> 0 \<le> off \<and> off < Tracks_Total playlist
         \<and> CallPlayOpt \<lparr>DeviceID = device_ID targetDevice,
                         PlaybackContext = ''spotify:playlist:'' @ playlistID,
                         PlaybackOffset = off\<rparr> \<in> set tr
         \<and> msg = ''Now playing '' @ quote @ full_Name playlist @ quote @ '' on ''
                  @ device_Name targetDevice @ '' (shuffle enabled, starting at track ''
                  @ itoa (off + 1) @ '' of '' @ itoa (Tracks_Total playlist) @ '')''"
proof (cases "GetPlaylist client playlistID")
  case (Inl err)
  with assms show ?thesis by (simp add: start_playback_def)
next
  case (Inr playlist)
  show ?thesis
  proof (cases "Intn rt (Tracks_Total playlist)")
    case (Panic m)
    with assms Inr show ?thesis by (simp add: start_playback_def Let_def)
  next
    case (Return off)
    from Intn_range [OF Return] have r: "0 \<le> off" "off < Tracks_Total playlist" by simp_all
    show ?thesis
    proof (cases "PlayOpt client \<lparr>DeviceID = device_ID targetDevice,
                         PlaybackContext = ''spotify:playlist:'' @ playlistID,
                         PlaybackOffset = off\<rparr>")
      case None
      with assms Inr Return r show ?thesis
        by (auto simp: start_playback_def Let_def)
    next
      case (Some err)
      with assms Inr Return show ?thesis by (simp add: start_playback_def Let_def)
    qed
  qed
qed

text \<open>
  Claim C9. When \<^verbatim>\<open>PlayPlaylist\<close> with shuffle requested returns a status message, the
  playlist it fetched has a track count \<open>n\<close> with the chosen offset in \<open>[0, n)\<close>, the
  playback command was sent to the selected device with that offset, and the message
  reports the playlist name, the device name, the offset plus one and \<open>n\<close>.
\<close>

theorem shuffle_offset_and_message:
  assumes "PlayPlaylist rt (Some client) deviceName playlistInput True
           = Some (tr, Return (Inr msg))"
  shows "\<exists>devices i playlistID playlist off.
           PlayerDevices client = Inr devices
         \<and> PlayPlaylist_targetDevice devices deviceName = Return i \<and> i < length devices
         \<and> (\<exists>tr0. resolvePlaylistIDQuiet rt client playlistInput = Some (tr0, Inr playlistID))
         \<and> GetPlaylist client playlistID = Inr playlist
         \<and> 0 \<le> off \<and> off < Tracks_Total playlist
         \<and> CallPlayOpt \<lparr>DeviceID = device_ID (devices ! i),
                         PlaybackContext = ''spotify:playlist:'' @ playlistID,
                         PlaybackOffset = off\<rparr> \<in> set tr
         \<and> msg = ''Now playing '' @ quote @ full_Name playlist @ quote @ '' on ''
                  @ device_Name (devices ! i) @ '' (shuffle enabled, starting at track ''
                  @ itoa (off + 1) @ '' of '' @ itoa (Tracks_Total playlist) @ '')''"
proof -
  from assms obtain devices where dv: "PlayerDevices client = Inr devices" "devices \<noteq> []"
    by (auto simp: PlayPlaylist_def split: sum.splits if_splits)
  with assms obtain i where i: "PlayPlaylist_targetDevice devices deviceName = Return i"
    by (auto simp: PlayPlaylist_def split: exec.splits)
  with dv have il: "i < length devices" by (simp add: targetDevice_in_range)
  from assms dv i obtain tr0 playlistID where
    rs: "resolvePlaylistIDQuiet rt client playlistInput = Some (tr0, Inr playlistID)"
    by (auto simp: PlayPlaylist_def split: option.splits sum.splits)
  with assms dv i have
    "start_playback rt client (devices ! i) playlistID True (CallPlayerDevices # tr0)
     = (tr, Return (Inr msg))"
    by (simp add: PlayPlaylist_def)
  from start_playback_shuffle_success [OF this] dv i il rs show ?thesis by blast
qed

theorem shuffle_offset_and_message_witness:
  "PlayPlaylist (ascii_runtime 17)
      (Some (demo_client (\<lambda>offset. Inr []) [speaker ''d1'' ''Kitchen'' True] 10))
      ''Kitchen'' ''37i9dQZF1DXcBWIGoYBM5M'' True
     = Some ([CallPlayerDevices, CallGetPlaylist ''37i9dQZF1DXcBWIGoYBM5M'',
              CallPlayOpt \<lparr>DeviceID = ''d1'',
                           PlaybackContext = ''spotify:playlist:37i9dQZF1DXcBWIGoYBM5M'',
                           PlaybackOffset = 7\<rparr>,
              Sleep 500, CallShuffle True],
             Return (Inr (''Now playing '' @ quote @ ''Road Trip'' @ quote
                          @ '' on Kitchen (shuffle enabled, starting at track 8 of 10)'')))
   \<and> (\<exists>off. 0 \<le> off \<and> off < 10
         \<and> ''Now playing '' @ quote @ ''Road Trip'' @ quote
             @ '' on Kitchen (shuffle enabled, starting at track 8 of 10)''
           = ''Now playing '' @ quote @ ''Road Trip'' @ quote
             @ '' on Kitchen (shuffle enabled, starting at track '' @ itoa (off + 1)
             @ '' of '' @ itoa 10 @ '')'')"
proof -
  have run: "PlayPlaylist (ascii_runtime 17)
      (Some (demo_client (\<lambda>offset. Inr []) [speaker ''d1'' ''Kitchen'' True] 10))
      ''Kitchen'' ''37i9dQZF1DXcBWIGoYBM5M'' True
     = Some ([CallPlayerDevices, CallGetPlaylist ''37i9dQZF1DXcBWIGoYBM5M'',
              CallPlayOpt \<lparr>DeviceID = ''d1'',
                           PlaybackContext = ''spotify:playlist:37i9dQZF1DXcBWIGoYBM5M'',
                           PlaybackOffset = 7\<rparr>,
              Sleep 500, CallShuffle True],
             Return (Inr (''Now playing '' @ quote @ ''Road Trip'' @ quote
                          @ '' on Kitchen (shuffle enabled, starting at track 8 of 10)'')))"
    by code_simp
  from shuffle_offset_and_message [OF run]
  obtain devices i playlistID playlist off where
    d: "PlayerDevices (demo_client (\<lambda>offset. Inr []) [speaker ''d1'' ''Kitchen'' True] 10)
          = Inr devices"
    and i: "i < length devices"
    and g: "GetPlaylist (demo_client (\<lambda>offset. Inr []) [speaker ''d1'' ''Kitchen'' True] 10)
              playlistID = Inr playlist"
    and o: "0 \<le> off" "off < Tracks_Total playlist"
    and m: "''Now playing '' @ quote @ ''Road Trip'' @ quote
              @ '' on Kitchen (shuffle enabled, starting at track 8 of 10)''
            = ''Now playing '' @ quote @ full_Name playlist @ quote @ '' on ''
              @ device_Name (devices ! i) @ '' (shuffle enabled, starting at track ''
              @ itoa (off + 1) @ '' of '' @ itoa (Tracks_Total playlist) @ '')''"
    by blast
  from d have devs: "devices = [speaker ''d1'' ''Kitchen'' True]" by (simp add: demo_client_def)
  with i have i0: "i = 0" by simp
  from g have pl: "playlist = \<lparr>full_Name = ''Road Trip'', Tracks_Total = 10\<rparr>"
    by (simp add: demo_client_def)
  from o m devs i0 pl have "0 \<le> off \<and> off < 10
         \<and> ''Now playing '' @ quote @ ''Road Trip'' @ quote
             @ '' on Kitchen (shuffle enabled, starting at track 8 of 10)''
           = ''Now playing '' @ quote @ ''Road Trip'' @ quote
             @ '' on Kitchen (shuffle enabled, starting at track '' @ itoa (off + 1)
             @ '' of '' @ itoa 10 @ '')''"
    by (simp add: speaker_def)
  with run show ?thesis by blast
qed

text \<open>
  With a track count of 0 the run ends in the panic of \<^verbatim>\<open>rand.Intn(0)\<close>, after the
  playlist has been fetched and before any playback command.
\<close>

lemma shuffle_on_empty_playlist:
  assumes "PlayerDevices client = Inr devices" and "devices \<noteq> []"
    and "resolvePlaylistIDQuiet rt client playlistInput = Some (tr0, Inr playlistID)"
    and "GetPlaylist client playlistID = Inr playlist"
    and "Tracks_Total playlist = 0"
  shows "PlayPlaylist rt (Some client) deviceName playlistInput True
         = Some (CallPlayerDevices # tr0 @ [CallGetPlaylist playlistID],
                 Panic ''invalid argument to Intn'')"
proof -
  from PlayPlaylist_targetDevice_first_match [OF assms(2), of deviceName]
  obtain i where "PlayPlaylist_targetDevice devices deviceName = Return i" by blast
  with assms show ?thesis
    by (simp add: PlayPlaylist_def start_playback_def Intn_def)
qed

text \<open>
  Claim C2. With shuffle requested and a fetched track count of 0, the random offset is
  picked and the playback command is sent as in the general case, and the only failure
  is the remote service's rejection of that command. The source does not get that far:
  at such an input \<^verbatim>\<open>rand.Intn(0)\<close> panics, and the trace of the run holds no
  \<^verbatim>\<open>PlayOpt\<close> call.
\<close>

theorem shuffle_on_empty_playlist_panics:
  "PlayPlaylist (ascii_runtime 17)
      (Some (demo_client (\<lambda>offset. Inr []) [speaker ''d1'' ''Kitchen'' True] 0))
      ''Kitchen'' ''37i9dQZF1DXcBWIGoYBM5M'' True
     = Some ([CallPlayerDevices, CallGetPlaylist ''37i9dQZF1DXcBWIGoYBM5M''],
             Panic ''invalid argument to Intn'')"
  by code_simp


section \<open>Name search\<close>

lemma scan_page_None:
  "scan_page rt input p = None \<longleftrightarrow>
     (\<forall>e\<in>set p. \<not> EqualFold rt (playlist_Name e) input \<and> playlist_ID e \<noteq> input)"
  by (induction p) auto

lemma scan_page_first:
  assumes "j < length p"
    and "EqualFold rt (playlist_Name (p ! j)) input \<or> playlist_ID (p ! j) = input"
    and "\<forall>i<j. \<not> EqualFold rt (playlist_Name (p ! i)) input \<and> playlist_ID (p ! i) \<noteq> input"
  shows "scan_page rt input p = Some (playlist_ID (p ! j))"
  using assms
proof (induction p arbitrary: j)
  case Nil
  then show ?case by simp
next
  case (Cons e p)
  show ?case
  proof (cases j)
    case 0
    with Cons.prems show ?thesis by auto
  next
    case (Suc j')
    from Cons.prems(3) Suc have e: "\<not> EqualFold rt (playlist_Name e) input \<and> playlist_ID e \<noteq> input"
      by (metis nth_Cons_0 zero_less_Suc)
    have "\<forall>i<j'. \<not> EqualFold rt (playlist_Name (p ! i)) input \<and> playlist_ID (p ! i) \<noteq> input"
    proof (intro allI impI)
      fix i assume "i < j'"
      then have "Suc i < j" using Suc by simp
      with Cons.prems(3) show "\<not> EqualFold rt (playlist_Name (p ! i)) input \<and> playlist_ID (p ! i) \<noteq> input"
        by (metis nth_Cons_Suc)
    qed
    with Cons.IH [of j'] Cons.prems Suc e show ?thesis by simp
  qed
qed

lemma quiet_loop_skips_full_pages:
  assumes "\<forall>i<k. \<exists>p. CurrentUsersPlaylists client limit (offset + limit * int i) = Inr p
                     \<and> scan_page rt input p = None \<and> \<not> int (length p) < limit"
  shows "quiet_loop rt client input limit offset tr
         = quiet_loop rt client input limit (offset + limit * int k)
             (tr @ map (\<lambda>i. CallCurrentUsersPlaylists limit (offset + limit * int i)) [0..<k])"
  using assms
proof (induction k)
  case 0
  show ?case by simp
next
  case (Suc k)
  then have IH: "quiet_loop rt client input limit offset tr
         = quiet_loop rt client input limit (offset + limit * int k)
             (tr @ map (\<lambda>i. CallCurrentUsersPlaylists limit (offset + limit * int i)) [0..<k])"
    by simp
  from Suc.prems obtain p where
    p: "CurrentUsersPlaylists client limit (offset + limit * int k) = Inr p"
       "scan_page rt input p = None" "\<not> int (length p) < limit"
    by blast
  have step: "quiet_loop rt client input limit (offset + limit * int k)
             (tr @ map (\<lambda>i. CallCurrentUsersPlaylists limit (offset + limit * int i)) [0..<k])
        = quiet_loop rt client input limit (offset + limit * int k + limit)
             ((tr @ map (\<lambda>i. CallCurrentUsersPlaylists limit (offset + limit * int i)) [0..<k])
               @ [CallCurrentUsersPlaylists limit (offset + limit * int k)])"
    using p by (subst quiet_loop.simps) simp
  have "offset + limit * int k + limit = offset + limit * int (Suc k)"
    by (simp add: algebra_simps)
  with IH step show ?case by simp
qed

lemma quiet_loop_last_page:
  assumes "\<forall>i<k. \<exists>p. CurrentUsersPlaylists client limit (offset + limit * int i) = Inr p
                     \<and> scan_page rt input p = None \<and> \<not> int (length p) < limit"
  shows "quiet_loop rt client input limit offset []
         = (case CurrentUsersPlaylists client limit (offset + limit * int k) of
              Inl err \<Rightarrow>
                Some (map (\<lambda>i. CallCurrentUsersPlaylists limit (offset + limit * int i)) [0..<Suc k],
                      Inl (Wrap ''failed to get playlists'' err))
            | Inr p \<Rightarrow>
                (case scan_page rt input p of
                   Some found \<Rightarrow>
                     Some (map (\<lambda>i. CallCurrentUsersPlaylists limit (offset + limit * int i)) [0..<Suc k],
                           Inr found)
                 | None \<Rightarrow>
                     if int (length p) < limit
                     then Some (map (\<lambda>i. CallCurrentUsersPlaylists limit (offset + limit * int i)) [0..<Suc k],
                                Inr input)
                     else quiet_loop rt client input limit (offset + limit * int k + limit)
                            (map (\<lambda>i. CallCurrentUsersPlaylists limit (offset + limit * int i)) [0..<Suc k])))"
  unfolding quiet_loop_skips_full_pages [OF assms, of "[]"]
  by (subst quiet_loop.simps) (simp split: sum.splits option.splits)

text \<open>
  Claim C6. For an input that is neither a link nor a bare ID, \<^verbatim>\<open>resolvePlaylistIDQuiet\<close>
  requests pages of 50 at the offsets 0, 50, 100, ... and goes on while a page has at
  least 50 entries and no match. It returns the ID of the first entry, in the order of
  pages and of entries within a page, whose name equals the input under
  \<^verbatim>\<open>strings.EqualFold\<close> or whose ID equals the input; when the last page requested is
  shorter than 50 and has no match either, it returns the input unchanged, without
  error. Here \<open>k\<close> full pages without a match come before the page \<open>p\<close>.
\<close>

theorem name_search_result:
  assumes "\<not> Contains input ''spotify.com/playlist/''"
    and "length input \<noteq> 22 \<or> Contains input '' ''"
    and "\<forall>i<k. \<exists>q. CurrentUsersPlaylists client 50 (50 * int i) = Inr q \<and> 50 \<le> length q
               \<and> (\<forall>e\<in>set q. \<not> EqualFold rt (playlist_Name e) input \<and> playlist_ID e \<noteq> input)"
    and "CurrentUsersPlaylists client 50 (50 * int k) = Inr p"
  shows "(\<forall>j<length p.
            (EqualFold rt (playlist_Name (p ! j)) input \<or> playlist_ID (p ! j) = input)
            \<and> (\<forall>i<j. \<not> EqualFold rt (playlist_Name (p ! i)) input \<and> playlist_ID (p ! i) \<noteq> input)
            \<longrightarrow> resolvePlaylistIDQuiet rt client input
                  = Some (map (\<lambda>i. CallCurrentUsersPlaylists 50 (50 * int i)) [0..<Suc k],
                          Inr (playlist_ID (p ! j))))
       \<and> ((\<forall>e\<in>set p. \<not> EqualFold rt (playlist_Name e) input \<and> playlist_ID e \<noteq> input)
            \<and> length p < 50
            \<longrightarrow> resolvePlaylistIDQuiet rt client input
                  = Some (map (\<lambda>i. CallCurrentUsersPlaylists 50 (50 * int i)) [0..<Suc k],
                          Inr input))"
proof -
  have full: "\<forall>i<k. \<exists>q. CurrentUsersPlaylists client 50 (0 + 50 * int i) = Inr q
                     \<and> scan_page rt input q = None \<and> \<not> int (length q) < 50"
    using assms(3) by (fastforce simp: scan_page_None)
  have loop: "resolvePlaylistIDQuiet rt client input = quiet_loop rt client input 50 0 []"
    using assms(1,2) by (auto simp: resolvePlaylistIDQuiet_def)
  note last = quiet_loop_last_page [OF full, simplified, unfolded assms(4), simplified]
  show ?thesis
  proof (intro conjI allI impI)
    fix j
    assume "j < length p" and
      "(EqualFold rt (playlist_Name (p ! j)) input \<or> playlist_ID (p ! j) = input)
       \<and> (\<forall>i<j. \<not> EqualFold rt (playlist_Name (p ! i)) input \<and> playlist_ID (p ! i) \<noteq> input)"
    then have "scan_page rt input p = Some (playlist_ID (p ! j))"
      using scan_page_first [of j p rt input] by blast
    with loop last show "resolvePlaylistIDQuiet rt client input
        = Some (map (\<lambda>i. CallCurrentUsersPlaylists 50 (50 * int i)) [0..<Suc k],
                Inr (playlist_ID (p ! j)))"
      by simp
  next
    assume "(\<forall>e\<in>set p. \<not> EqualFold rt (playlist_Name e) input \<and> playlist_ID e \<noteq> input)
            \<and> length p < 50"
    then have "scan_page rt input p = None" and "length p < 50"
      by (simp_all add: scan_page_None)
    with loop last show "resolvePlaylistIDQuiet rt client input
        = Some (map (\<lambda>i. CallCurrentUsersPlaylists 50 (50 * int i)) [0..<Suc k], Inr input)"
      by simp
  qed
qed

theorem name_search_result_witness:
  "resolvePlaylistIDQuiet (ascii_runtime 0) (demo_client demo_pages [] 0) ''my awesome playlist''
     = Some ([CallCurrentUsersPlaylists 50 0, CallCurrentUsersPlaylists 50 50],
             Inr ''found123playlistid00'')
   \<and> resolvePlaylistIDQuiet (ascii_runtime 0) (demo_client demo_pages [] 0) ''Unknown Playlist''
     = Some ([CallCurrentUsersPlaylists 50 0, CallCurrentUsersPlaylists 50 50],
             Inr ''Unknown Playlist'')"
proof -
  let ?rt = "ascii_runtime 0" and ?c = "demo_client demo_pages [] 0"
  let ?p = "[entry ''jazz0000playlistid00'' ''Jazz'',
             entry ''found123playlistid00'' ''My Awesome Playlist'',
             entry ''later789playlistid00'' ''MY AWESOME PLAYLIST'']"
  have f1: "\<not> EqualFold ?rt ''Other Playlist'' ''my awesome playlist''" by code_simp
  have f2: "\<not> EqualFold ?rt ''Jazz'' ''my awesome playlist''" by code_simp
  have f3: "EqualFold ?rt ''My Awesome Playlist'' ''my awesome playlist''" by code_simp
  have g1: "\<not> EqualFold ?rt ''Other Playlist'' ''Unknown Playlist''" by code_simp
  have g2: "\<not> EqualFold ?rt ''Jazz'' ''Unknown Playlist''" by code_simp
  have g3: "\<not> EqualFold ?rt ''My Awesome Playlist'' ''Unknown Playlist''" by code_simp
  have g4: "\<not> EqualFold ?rt ''MY AWESOME PLAYLIST'' ''Unknown Playlist''" by code_simp
  have a1: "\<not> Contains ''my awesome playlist'' ''spotify.com/playlist/''" by code_simp
  have a2: "length ''my awesome playlist'' \<noteq> 22 \<or> Contains ''my awesome playlist'' '' ''" by simp
  have a3: "\<forall>i<1. \<exists>q. CurrentUsersPlaylists ?c 50 (50 * int i) = Inr q \<and> 50 \<le> length q
               \<and> (\<forall>e\<in>set q. \<not> EqualFold ?rt (playlist_Name e) ''my awesome playlist''
                            \<and> playlist_ID e \<noteq> ''my awesome playlist'')"
    using f1 by (simp add: demo_client_def demo_pages_def entry_def)
  have a4: "CurrentUsersPlaylists ?c 50 (50 * int 1) = Inr ?p"
    by (simp add: demo_client_def demo_pages_def)
  have first: "resolvePlaylistIDQuiet ?rt ?c ''my awesome playlist''
     = Some ([CallCurrentUsersPlaylists 50 0, CallCurrentUsersPlaylists 50 50],
             Inr ''found123playlistid00'')"
    using name_search_result [OF a1 a2 a3 a4, THEN conjunct1, rule_format, of 1] f2 f3
    by (simp add: entry_def)
  have b1: "\<not> Contains ''Unknown Playlist'' ''spotify.com/playlist/''" by code_simp
  have b2: "length ''Unknown Playlist'' \<noteq> 22 \<or> Contains ''Unknown Playlist'' '' ''" by simp
  have b3: "\<forall>i<1. \<exists>q. CurrentUsersPlaylists ?c 50 (50 * int i) = Inr q \<and> 50 \<le> length q
               \<and> (\<forall>e\<in>set q. \<not> EqualFold ?rt (playlist_Name e) ''Unknown Playlist''
                            \<and> playlist_ID e \<noteq> ''Unknown Playlist'')"
    using g1 by (simp add: demo_client_def demo_pages_def entry_def)
  have second: "resolvePlaylistIDQuiet ?rt ?c ''Unknown Playlist''
     = Some ([CallCurrentUsersPlaylists 50 0, CallCurrentUsersPlaylists 50 50],
             Inr ''Unknown Playlist'')"
    using name_search_result [OF b1 b2 b3 a4, THEN conjunct2] g2 g3 g4
    by (simp add: entry_def)
  from first second show ?thesis by blast
qed

text \<open>
  Claim C7. When a page request fails during the name search, the resolver returns that
  error (wrapped as "failed to get playlists") at once: the failed request is the last
  call of the run, and the result is the error, not the input.
\<close>

theorem lister_error_aborts_resolution:
  assumes "\<not> Contains input ''spotify.com/playlist/''"
    and "length input \<noteq> 22 \<or> Contains input '' ''"
    and "\<forall>i<k. \<exists>q. CurrentUsersPlaylists client 50 (50 * int i) = Inr q \<and> 50 \<le> length q
               \<and> (\<forall>e\<in>set q. \<not> EqualFold rt (playlist_Name e) input \<and> playlist_ID e \<noteq> input)"
    and "CurrentUsersPlaylists client 50 (50 * int k) = Inl err"
  shows "resolvePlaylistIDQuiet rt client input
         = Some (map (\<lambda>i. CallCurrentUsersPlaylists 50 (50 * int i)) [0..<Suc k],
                 Inl (Wrap ''failed to get playlists'' err))"
proof -
  have full: "\<forall>i<k. \<exists>q. CurrentUsersPlaylists client 50 (0 + 50 * int i) = Inr q
                     \<and> scan_page rt input q = None \<and> \<not> int (length q) < 50"
    using assms(3) by (fastforce simp: scan_page_None)
  have loop: "resolvePlaylistIDQuiet rt client input = quiet_loop rt client input 50 0 []"
    using assms(1,2) by (auto simp: resolvePlaylistIDQuiet_def)
  note last = quiet_loop_last_page [OF full, simplified, unfolded assms(4), simplified]
  from loop last show ?thesis by simp
qed

theorem lister_error_aborts_resolution_witness:
  "resolvePlaylistIDQuiet (ascii_runtime 0) (demo_client failing_pages [] 0) ''Some Playlist''
     = Some ([CallCurrentUsersPlaylists 50 0, CallCurrentUsersPlaylists 50 50],
             Inl (Wrap ''failed to get playlists'' (Remote ''API error'')))"
proof -
  let ?rt = "ascii_runtime 0" and ?c = "demo_client failing_pages [] 0"
  have f1: "\<not> EqualFold ?rt ''Other Playlist'' ''Some Playlist''" by code_simp
  have a1: "\<not> Contains ''Some Playlist'' ''spotify.com/playlist/''" by code_simp
  have a2: "length ''Some Playlist'' \<noteq> 22 \<or> Contains ''Some Playlist'' '' ''" by simp
  have a3: "\<forall>i<1. \<exists>q. CurrentUsersPlaylists ?c 50 (50 * int i) = Inr q \<and> 50 \<le> length q
               \<and> (\<forall>e\<in>set q. \<not> EqualFold ?rt (playlist_Name e) ''Some Playlist''
                            \<and> playlist_ID e \<noteq> ''Some Playlist'')"
    using f1 by (simp add: demo_client_def failing_pages_def entry_def)
  have a4: "CurrentUsersPlaylists ?c 50 (50 * int 1) = Inl (Remote ''API error'')"
    by (simp add: demo_client_def failing_pages_def)
  from lister_error_aborts_resolution [OF a1 a2 a3 a4] show ?thesis by simp
qed


section \<open>Link form\<close>

lemma Index_Some:
  "Index s sep = Some m \<Longrightarrow>
     m \<le> length s \<and> prefix sep (drop m s) \<and> (\<forall>j<m. \<not> prefix sep (drop j s))"
proof (induction s arbitrary: m)
  case Nil
  then show ?case by (simp split: if_splits)
next
  case (Cons c cs)
  show ?case
  proof (cases "prefix sep (c # cs)")
    case True
    with Cons.prems show ?thesis by simp
  next
    case False
    with Cons.prems obtain k where k: "Index cs sep = Some k" "m = Suc k" by auto
    from Cons.IH [OF k(1)] have h: "k \<le> length cs" "prefix sep (drop k cs)"
      "\<forall>j<k. \<not> prefix sep (drop j cs)" by blast+
    have "\<forall>j<m. \<not> prefix sep (drop j (c # cs))"
    proof (intro allI impI)
      fix j assume "j < m"
      show "\<not> prefix sep (drop j (c # cs))"
      proof (cases j)
        case 0
        with False show ?thesis by simp
      next
        case (Suc j')
        with \<open>j < m\<close> k(2) have "j' < k" by simp
        with h(3) Suc show ?thesis by simp
      qed
    qed
    with h k(2) show ?thesis by simp
  qed
qed

lemma Index_None: "Index s sep = None \<Longrightarrow> \<not> prefix sep (drop j s)"
proof (induction s arbitrary: j)
  case Nil
  then show ?case by (simp split: if_splits)
next
  case (Cons c cs)
  then have np: "\<not> prefix sep (c # cs)" and "Index cs sep = None"
    by (auto split: if_splits)
  with Cons.IH show ?case by (cases j) simp_all
qed

lemma Contains_drop: "Contains s sub \<Longrightarrow> \<exists>j. prefix sub (drop j s)"
proof (induction s)
  case Nil
  then show ?case by simp
next
  case (Cons c cs)
  show ?case
  proof (cases "prefix sub (c # cs)")
    case True
    then have "prefix sub (drop 0 (c # cs))" by simp
    then show ?thesis by blast
  next
    case False
    with Cons obtain j where "prefix sub (drop j cs)" by auto
    then have "prefix sub (drop (Suc j) (c # cs))" by simp
    then show ?thesis by blast
  qed
qed

lemma marker_has_separator:
  assumes "Contains input ''spotify.com/playlist/''"
  shows "\<exists>m. Index input ''/playlist/'' = Some m"
proof -
  from Contains_drop [OF assms] obtain j where "prefix ''spotify.com/playlist/'' (drop j input)"
    by blast
  then obtain t where "drop j input = ''spotify.com/playlist/'' @ t"
    by (auto simp: prefix_def)
  then have "drop 11 (drop j input) = ''/playlist/'' @ t" by simp
  then have "prefix ''/playlist/'' (drop (11 + j) input)" by (simp add: add.commute)
  with Index_None [of input "''/playlist/''" "11 + j"] show ?thesis
    by (cases "Index input ''/playlist/''") auto
qed

lemma Split_None: "sep \<noteq> [] \<Longrightarrow> Index s sep = None \<Longrightarrow> Split s sep = [s]"
  by (subst Split.simps) simp

lemma Split_Some:
  "sep \<noteq> [] \<Longrightarrow> Index s sep = Some m \<Longrightarrow>
     Split s sep = take m s # Split (drop (m + length sep) s) sep"
  by (subst Split.simps) simp

lemma Split_head:
  "sep \<noteq> [] \<Longrightarrow> Split s sep ! 0 = (case Index s sep of None \<Rightarrow> s | Some m \<Rightarrow> take m s)"
  by (cases "Index s sep") (simp_all add: Split_None Split_Some)

lemma Split_not_Nil: "sep \<noteq> [] \<Longrightarrow> Split s sep \<noteq> []"
  by (cases "Index s sep") (simp_all add: Split_None Split_Some)

text \<open>The text before the first separator, and what is left.\<close>

lemma cut_at_first:
  assumes "sep \<noteq> []"
  shows "\<exists>r. t = (case Index t sep of None \<Rightarrow> t | Some k \<Rightarrow> take k t) @ r
           \<and> (\<forall>j<length (case Index t sep of None \<Rightarrow> t | Some k \<Rightarrow> take k t).
                 \<not> prefix sep (drop j t))
           \<and> (r = [] \<or> prefix sep r)"
proof (cases "Index t sep")
  case None
  with Index_None [OF None] show ?thesis by simp
next
  case (Some k)
  from Index_Some [OF Some] have "k \<le> length t" "prefix sep (drop k t)"
    "\<forall>j<k. \<not> prefix sep (drop j t)" by blast+
  with Some have "t = (case Index t sep of None \<Rightarrow> t | Some k \<Rightarrow> take k t) @ drop k t
           \<and> (\<forall>j<length (case Index t sep of None \<Rightarrow> t | Some k \<Rightarrow> take k t).
                 \<not> prefix sep (drop j t))
           \<and> (drop k t = [] \<or> prefix sep (drop k t))"
    by simp
  then show ?thesis by blast
qed

lemma extractPlaylistID_link:
  assumes "Contains input ''spotify.com/playlist/''"
    and "Index input ''/playlist/'' = Some m"
    and "seg1 = (case Index (drop (m + 10) input) ''/playlist/'' of
                   None \<Rightarrow> drop (m + 10) input
                 | Some k \<Rightarrow> take k (drop (m + 10) input))"
  shows "extractPlaylistID input = (case Index seg1 ''?'' of None \<Rightarrow> seg1 | Some q \<Rightarrow> take q seg1)"
proof -
  have ne: "''/playlist/'' \<noteq> []" by simp
  have len: "m + length ''/playlist/'' = m + 10" by simp
  have parts: "Split input ''/playlist/'' = take m input # Split (drop (m + 10) input) ''/playlist/''"
    using Split_Some [OF ne assms(2)] unfolding len .
  obtain x xs where tl: "Split (drop (m + 10) input) ''/playlist/'' = x # xs"
    using Split_not_Nil [of "''/playlist/''" "drop (m + 10) input"]
    by (cases "Split (drop (m + 10) input) ''/playlist/''") auto
  have "x = Split (drop (m + 10) input) ''/playlist/'' ! 0" using tl by simp
  then have x: "x = seg1"
    using Split_head [of "''/playlist/''" "drop (m + 10) input"] assms(3) by simp
  from assms(1) parts tl x show ?thesis
    by (simp add: extractPlaylistID_def Split_head)
qed

text \<open>
  Claim C5, as the source has it. For an input that contains the playlist-link marker
  \<^verbatim>\<open>spotify.com/playlist/\<close>, \<^verbatim>\<open>resolvePlaylistIDQuiet\<close> succeeds without any call on the
  client and returns the text \<open>seg\<close> that follows the first \<^verbatim>\<open>/playlist/\<close> of the input
  and ends before the first \<^verbatim>\<open>?\<close> or the next \<^verbatim>\<open>/playlist/\<close>, whichever comes first, or
  at the end of the input when neither follows. Nothing else about the input matters.
\<close>

theorem link_form_segment:
  assumes "Contains input ''spotify.com/playlist/''"
  shows "\<exists>pre seg rest.
           input = pre @ ''/playlist/'' @ seg @ rest
         \<and> (\<forall>j<length pre. \<not> prefix ''/playlist/'' (drop j input))
         \<and> (\<forall>j<length seg. seg ! j \<noteq> CHR ''?'' \<and> \<not> prefix ''/playlist/'' (drop j (seg @ rest)))
         \<and> (rest = [] \<or> prefix ''?'' rest \<or> prefix ''/playlist/'' rest)
         \<and> resolvePlaylistIDQuiet rt client input = Some ([], Inr seg)"
proof -
  from marker_has_separator [OF assms] obtain m where m: "Index input ''/playlist/'' = Some m"
    by blast
  define tail where "tail = drop (m + 10) input"
  define seg1 where "seg1 = (case Index tail ''/playlist/'' of None \<Rightarrow> tail | Some k \<Rightarrow> take k tail)"
  define seg where "seg = (case Index seg1 ''?'' of None \<Rightarrow> seg1 | Some q \<Rightarrow> take q seg1)"
  from Index_Some [OF m] have mle: "m \<le> length input"
    and mp: "prefix ''/playlist/'' (drop m input)"
    and mmin: "\<forall>j<m. \<not> prefix ''/playlist/'' (drop j input)" by blast+
  from mp obtain t where t: "drop m input = ''/playlist/'' @ t" by (auto simp: prefix_def)
  then have "drop 10 (drop m input) = t" by simp
  then have tt: "t = tail" by (simp add: tail_def add.commute)
  have "input = take m input @ drop m input" by simp
  with t tt have dec: "input = take m input @ ''/playlist/'' @ tail" by metis
  from cut_at_first [of "''/playlist/''" tail] obtain r1 where
    r1: "tail = seg1 @ r1" "\<forall>j<length seg1. \<not> prefix ''/playlist/'' (drop j tail)"
        "r1 = [] \<or> prefix ''/playlist/'' r1"
    unfolding seg1_def by auto
  from cut_at_first [of "''?''" seg1] obtain r2 where
    r2: "seg1 = seg @ r2" "\<forall>j<length seg. \<not> prefix ''?'' (drop j seg1)"
        "r2 = [] \<or> prefix ''?'' r2"
    unfolding seg_def by auto
  have tail: "tail = seg @ (r2 @ r1)" using r1(1) r2(1) by simp
  have c1: "input = take m input @ ''/playlist/'' @ seg @ (r2 @ r1)"
    using dec tail by simp
  have c2: "\<forall>j<length (take m input). \<not> prefix ''/playlist/'' (drop j input)"
    using mmin mle by simp
  have c3: "\<forall>j<length seg. seg ! j \<noteq> CHR ''?''
              \<and> \<not> prefix ''/playlist/'' (drop j (seg @ (r2 @ r1)))"
  proof (intro allI impI conjI)
    fix j assume j: "j < length seg"
    with r2(2) have "\<not> prefix ''?'' (drop j seg1)" by blast
    moreover from j r2(1) have "drop j seg1 = seg ! j # drop (Suc j) seg @ r2"
      by (simp add: Cons_nth_drop_Suc)
    ultimately show "seg ! j \<noteq> CHR ''?''" by auto
    from j r2(1) have "j < length seg1" by simp
    with r1(2) tail show "\<not> prefix ''/playlist/'' (drop j (seg @ (r2 @ r1)))" by metis
  qed
  have c4: "r2 @ r1 = [] \<or> prefix ''?'' (r2 @ r1) \<or> prefix ''/playlist/'' (r2 @ r1)"
  proof (cases "r2 = []")
    case True
    with r1(3) show ?thesis by auto
  next
    case False
    with r2(3) have "prefix ''?'' r2" by simp
    then have "prefix ''?'' (r2 @ r1)" by (rule prefix_prefix)
    then show ?thesis by simp
  qed
  have s1: "seg1 = (case Index (drop (m + 10) input) ''/playlist/'' of
                      None \<Rightarrow> drop (m + 10) input
                    | Some k \<Rightarrow> take k (drop (m + 10) input))"
    unfolding seg1_def tail_def ..
  have "extractPlaylistID input = seg"
    unfolding seg_def by (rule extractPlaylistID_link [OF assms m s1])
  with assms have c5: "resolvePlaylistIDQuiet rt client input = Some ([], Inr seg)"
    by (simp add: resolvePlaylistIDQuiet_def)
  from c1 c2 c3 c4 c5 show ?thesis by blast
qed

theorem link_form_segment_witness:
  "Contains ''https://open.spotify.com/playlist/37i9dQZF1DXcBWIGoYBM5M?si=abc123''
     ''spotify.com/playlist/''
   \<and> (\<exists>pre seg rest.
         ''https://open.spotify.com/playlist/37i9dQZF1DXcBWIGoYBM5M?si=abc123''
           = pre @ ''/playlist/'' @ seg @ rest
       \<and> (rest = [] \<or> prefix ''?'' rest \<or> prefix ''/playlist/'' rest)
       \<and> resolvePlaylistIDQuiet (ascii_runtime 0) (demo_client demo_pages [] 0)
            ''https://open.spotify.com/playlist/37i9dQZF1DXcBWIGoYBM5M?si=abc123''
          = Some ([], Inr seg))
   \<and> resolvePlaylistIDQuiet (ascii_runtime 0) (demo_client demo_pages [] 0)
        ''https://open.spotify.com/playlist/37i9dQZF1DXcBWIGoYBM5M?si=abc123''
      = Some ([], Inr ''37i9dQZF1DXcBWIGoYBM5M'')"
proof -
  have h: "Contains ''https://open.spotify.com/playlist/37i9dQZF1DXcBWIGoYBM5M?si=abc123''
             ''spotify.com/playlist/''"
    by code_simp
  from link_form_segment [OF h, of "ascii_runtime 0" "demo_client demo_pages [] 0"]
  have ex: "\<exists>pre seg rest.
         ''https://open.spotify.com/playlist/37i9dQZF1DXcBWIGoYBM5M?si=abc123''
           = pre @ ''/playlist/'' @ seg @ rest
       \<and> (rest = [] \<or> prefix ''?'' rest \<or> prefix ''/playlist/'' rest)
       \<and> resolvePlaylistIDQuiet (ascii_runtime 0) (demo_client demo_pages [] 0)
            ''https://open.spotify.com/playlist/37i9dQZF1DXcBWIGoYBM5M?si=abc123''
          = Some ([], Inr seg)"
    by blast
  have v: "resolvePlaylistIDQuiet (ascii_runtime 0) (demo_client demo_pages [] 0)
        ''https://open.spotify.com/playlist/37i9dQZF1DXcBWIGoYBM5M?si=abc123''
      = Some ([], Inr ''37i9dQZF1DXcBWIGoYBM5M'')"
    by code_simp
  from h ex v show ?thesis by blast
qed

text \<open>
  Claim C5 as stated: the result is the text between \<^verbatim>\<open>/playlist/\<close> and the first
  following \<^verbatim>\<open>?\<close>, or the end of the input when no \<^verbatim>\<open>?\<close> follows. The input below has no
  \<^verbatim>\<open>?\<close>; the text that follows its first \<^verbatim>\<open>/playlist/\<close> up to the end is
  \<^verbatim>\<open>abc/playlist/def\<close>, and the source returns \<^verbatim>\<open>abc\<close>.
\<close>

theorem link_with_second_playlist_segment_counterexample:
  "''https://open.spotify.com/playlist/abc/playlist/def''
     = ''https://open.spotify.com'' @ ''/playlist/'' @ ''abc/playlist/def''
   \<and> CHR ''?'' \<notin> set ''abc/playlist/def''
   \<and> resolvePlaylistIDQuiet (ascii_runtime 0) (demo_client demo_pages [] 0)
        ''https://open.spotify.com/playlist/abc/playlist/def''
      = Some ([], Inr ''abc'')
   \<and> resolvePlaylistIDQuiet (ascii_runtime 0) (demo_client demo_pages [] 0)
        ''https://open.spotify.com/playlist/abc/playlist/def''
      \<noteq> Some ([], Inr ''abc/playlist/def'')"
proof -
  have v: "resolvePlaylistIDQuiet (ascii_runtime 0) (demo_client demo_pages [] 0)
        ''https://open.spotify.com/playlist/abc/playlist/def''
      = Some ([], Inr ''abc'')"
    by code_simp
  then show ?thesis by simp
qed

end
